theory Spec2Isabelle
  imports Main "HOL-Library.Log_Nat" "HOL-Library.Multiset"
begin

section \<open>Exceptions\<close>

text \<open>
  A Python exception is a value. \<open>Raised msg\<close> stands for an exception thrown by an
  external collaborator (the scoring function, the candidate, the model library), named
  by its message. The built-in exceptions are the ones the modelled statements can
  throw. \<open>EvaluationError\<close> and \<open>JobFailure\<close> are the two wrapping errors of the
  specification's taxonomy; they are part of the value space so that statements about
  them can be written down; a position is a tuple of grid indices.
\<close>

datatype exn =
    Raised string
  | IndexError
  | ZeroDivisionError
  | OverflowError
  | ValueError
  | AttributeError
  | UnboundLocalError
  | EvaluationError "int list" exn
  | JobFailure nat exn

section \<open>Data conversion: \<open>BaseOptimizer._check_data\<close>\<close>

text \<open>
  The training data is either a pandas \<open>DataFrame\<close> or some other array-like object.
  \<open>DataFrame.values\<close> is the frame's content as a numpy array, which is never a
  \<open>DataFrame\<close>; an object without the attribute raises \<open>AttributeError\<close>.
\<close>

datatype 'a data = DataFrame 'a | Array 'a

fun isinstance_DataFrame :: "'a data \<Rightarrow> bool" where
  "isinstance_DataFrame (DataFrame _) = True"
| "isinstance_DataFrame (Array _) = False"

fun values_attr :: "'a data \<Rightarrow> exn + 'a data" where
  "values_attr (DataFrame v) = Inr (Array v)"
| "values_attr (Array _) = Inl AttributeError"

definition check_data :: "'a data \<Rightarrow> 'b data \<Rightarrow> exn + ('a data \<times> 'b data)" where
  "check_data X y =
     (case (if isinstance_DataFrame X then values_attr X else Inr X) of
        Inl e \<Rightarrow> Inl e
      | Inr X1 \<Rightarrow>
          (case (if isinstance_DataFrame X1 then values_attr y else Inr y) of
             Inl e \<Rightarrow> Inl e
           | Inr y1 \<Rightarrow> Inr (X1, y1)))"

section \<open>The optimizer object\<close>

text \<open>
  The attributes of \<open>BaseOptimizer\<close> that the modelled methods read. \<open>n_jobs\<close> is
  \<open>self._config_.n_jobs\<close>, \<open>model_type\<close> is \<open>self._config_.model_type\<close>;
  \<open>model_list\<close> holds the keys of \<open>search_config\<close>, a dictionary, so its entries
  are pairwise distinct. Job ids are taken from a \<open>range\<close> and are natural numbers.
\<close>

record 'k optimizer =
  n_iter :: int
  random_state :: "int option"
  verbosity :: int
  model_list :: "'k list"
  model_type :: string
  n_jobs :: int
  n_process_range :: "nat list"

text \<open>\<open>self.n_models = len(self.model_list)\<close>, fixed by the constructor.\<close>

definition n_models :: "'k optimizer \<Rightarrow> int" where
  "n_models opt = int (length (model_list opt))"

text \<open>
  The constructor. \<open>Config\<close> is not part of the sources: \<open>cfg_n_jobs\<close> and
  \<open>cfg_model_type\<close> are the values its \<open>set_n_jobs\<close> and \<open>get_model_type\<close> leave
  in \<open>self._config_\<close>. \<open>range(0, int(n))\<close> is empty for \<open>n \<le> 0\<close>.
\<close>

definition BaseOptimizer_init ::
  "'k list \<Rightarrow> int \<Rightarrow> int \<Rightarrow> int option \<Rightarrow> int \<Rightarrow> string \<Rightarrow> 'k optimizer" where
  "BaseOptimizer_init search_config_keys n_iter0 verbosity0 random_state0 cfg_n_jobs cfg_model_type =
     \<lparr>n_iter = n_iter0, random_state = random_state0, verbosity = verbosity0,
      model_list = search_config_keys, model_type = cfg_model_type,
      n_jobs = cfg_n_jobs, n_process_range = [0..<nat cfg_n_jobs]\<rparr>"

section \<open>Seeding: \<open>BaseOptimizer._set_random_seed\<close>\<close>

text \<open>
  The three process-global generators the method seeds. A field holds the argument of
  the last \<open>seed\<close> call on that generator; \<open>None\<close> is a generator that was never
  seeded, the process default.
\<close>

record generators =
  random_seed :: "int option"
  np_random_seed :: "int option"
  scipy_random_seed :: "int option"

definition unseeded :: generators where
  "unseeded = \<lparr>random_seed = None, np_random_seed = None, scipy_random_seed = None\<rparr>"

text \<open>Python's truth value of \<open>self.random_state\<close>: \<open>None\<close> and \<open>0\<close> are false.\<close>

fun truthy :: "int option \<Rightarrow> bool" where
  "truthy None = False"
| "truthy (Some n) = (n \<noteq> 0)"

text \<open>
  \<open>random.seed\<close> takes every integer. \<open>np.random.seed\<close>, and \<open>scipy.random.seed\<close>,
  which is numpy's, raise \<open>ValueError\<close> for a seed that is not between \<open>0\<close> and
  \<open>2^32 - 1\<close>.
\<close>

definition np_seed_in_range :: "int \<Rightarrow> bool" where
  "np_seed_in_range s \<longleftrightarrow> 0 \<le> s \<and> s \<le> 2 ^ 32 - 1"

text \<open>
  The three \<open>seed\<close> calls of either branch, in their order: the generators as the calls
  leave them, and the exception that ended them, if one did.
\<close>

definition seed_generators :: "int \<Rightarrow> generators \<Rightarrow> generators \<times> exn option" where
  "seed_generators s g =
     (let g1 = g\<lparr>random_seed := Some s\<rparr>
      in if \<not> np_seed_in_range s then (g1, Some ValueError)
         else (let g2 = g1\<lparr>np_random_seed := Some s\<rparr>
               in if \<not> np_seed_in_range s then (g2, Some ValueError)
                  else (g2\<lparr>scipy_random_seed := Some s\<rparr>, None)))"

definition set_random_seed ::
  "'k optimizer \<Rightarrow> int \<Rightarrow> generators \<Rightarrow> generators \<times> exn option" where
  "set_random_seed opt thread g =
     (if truthy (random_state opt) then
        (let rand = the (random_state opt) in seed_generators (rand + thread) g)
      else
        (let rand = 0 in seed_generators (rand + thread) g))"

section \<open>Model selection: \<open>BaseOptimizer._get_sklearn_model\<close>\<close>

text \<open>Indexing a list with a non-negative index; out of range raises \<open>IndexError\<close>.\<close>

definition getitem :: "'a list \<Rightarrow> nat \<Rightarrow> exn + 'a" where
  "getitem xs i = (if i < length xs then Inr (xs ! i) else Inl IndexError)"

text \<open>
  \<open>random.choice(seq)\<close> is \<open>seq[randbelow(len(seq))]\<close> and raises \<open>IndexError\<close> on an
  empty sequence. The parameter \<open>randbelow\<close> is the job's generator: \<open>randbelow n\<close> is
  its next draw from \<open>range(n)\<close>.
\<close>

definition random_choice :: "(nat \<Rightarrow> nat) \<Rightarrow> 'a list \<Rightarrow> exn + 'a" where
  "random_choice randbelow xs =
     (if xs = [] then Inl IndexError else getitem xs (randbelow (length xs)))"

text \<open>What the method prints: the report that \<open>diff\<close> models will not be processed.\<close>

datatype message = NotEnoughJobs int

text \<open>The result is what was printed, and the key returned or the exception raised.\<close>

definition get_sklearn_model ::
  "'k optimizer \<Rightarrow> (nat \<Rightarrow> nat) \<Rightarrow> nat \<Rightarrow> message list \<times> (exn + 'k)" where
  "get_sklearn_model opt randbelow nth_process =
     (if n_models opt > n_jobs opt then
        (let diff = n_models opt - n_jobs opt;
             out = (if nth_process = 0 then [NotEnoughJobs diff] else [])
         in (out, getitem (model_list opt) nth_process))
      else if int nth_process < n_models opt then
        ([], getitem (model_list opt) nth_process)
      else
        ([], random_choice randbelow (model_list opt)))"

section \<open>Apportioning the iterations: \<open>BaseOptimizer._set_n_steps\<close>\<close>

text \<open>
  \<open>int(self.n_iter / self._config_.n_jobs)\<close> divides two Python integers with \<open>/\<close>:
  the quotient is the double nearest to the exact quotient (ties to the even
  significand), \<open>OverflowError\<close> when that is not finite, \<open>ZeroDivisionError\<close> for a
  zero divisor; \<open>int\<close> then drops the fraction, towards zero.

  \<open>round_half_even n d\<close> is the integer nearest to \<open>n / d\<close>, for \<open>0 \<le> n\<close> and
  \<open>0 < d\<close>.
\<close>

definition round_half_even :: "int \<Rightarrow> int \<Rightarrow> int" where
  "round_half_even n d =
     (let q = n div d; r = n mod d
      in if 2 * r < d then q
         else if d < 2 * r then q + 1
         else if even q then q else q + 1)"

text \<open>For positive \<open>a\<close> and \<open>b\<close>, the exponent \<open>e\<close> with \<open>2^e \<le> a / b < 2^(e+1)\<close>.\<close>

definition quotient_exponent :: "int \<Rightarrow> int \<Rightarrow> int" where
  "quotient_exponent a b =
     (let d = bitlen a - bitlen b
      in if (if 0 \<le> d then b * 2 ^ nat d \<le> a else b \<le> a * 2 ^ nat (- d)) then d else d - 1)"

text \<open>
  For positive \<open>a\<close> and \<open>b\<close>, the integer part of the double nearest to \<open>a / b\<close>. A
  double with exponent \<open>e\<close> is a multiple of \<open>2^(e - 52)\<close>, and of \<open>2^(-1074)\<close> at least.
\<close>

definition truediv_trunc :: "int \<Rightarrow> int \<Rightarrow> exn + int" where
  "truediv_trunc a b =
     (let ulp = max (quotient_exponent a b - 52) (- 1074)
      in if 0 \<le> ulp then
           (let v = round_half_even a (b * 2 ^ nat ulp) * 2 ^ nat ulp
            in if 2 ^ 1024 \<le> v then Inl OverflowError else Inr v)
         else Inr (round_half_even (a * 2 ^ nat (- ulp)) b div 2 ^ nat (- ulp)))"

text \<open>\<open>int(a / b)\<close> for Python integers \<open>a\<close> and \<open>b\<close>.\<close>

definition int_truediv :: "int \<Rightarrow> int \<Rightarrow> exn + int" where
  "int_truediv a b =
     (if b = 0 then Inl ZeroDivisionError
      else if a = 0 then Inr 0
      else (case truediv_trunc \<bar>a\<bar> \<bar>b\<bar> of
              Inl e \<Rightarrow> Inl e
            | Inr m \<Rightarrow> Inr (sgn a * sgn b * m)))"

text \<open>Python's \<open>%\<close> on integers is the remainder of floor division, as \<open>mod\<close> on \<open>int\<close>.\<close>

definition set_n_steps :: "'k optimizer \<Rightarrow> nat \<Rightarrow> exn + int" where
  "set_n_steps opt nth_process =
     (case int_truediv (n_iter opt) (n_jobs opt) of
        Inl e \<Rightarrow> Inl e
      | Inr n_steps \<Rightarrow>
          (let remain = n_iter opt mod n_jobs opt
           in if int nth_process < remain then Inr (n_steps + 1) else Inr n_steps))"

section \<open>One search job: \<open>BaseOptimizer._init_search\<close> and \<open>BaseOptimizer.search\<close>\<close>

text \<open>
  The attributes of a candidate that the optimizer reads and writes. \<open>model_key\<close> is
  the \<open>search_config_key\<close> an \<open>MlCandidate\<close> is built with; a \<open>DlCandidate\<close> has none.
\<close>

record ('pos, 'score, 'k) candidate =
  nth_process :: nat
  model_key :: "'k option"
  pos_best :: 'pos
  score_best :: 'score

text \<open>
  The collaborators of the optimizer that are not part of the sources, for fixed
  training data: the candidate's start position and scoring function (of the job id and
  the model key the candidate was built with), the \<open>initializer\<close> and the \<open>_iterate\<close>
  method a subclass supplies (\<open>_iterate\<close> changes the candidate and the positioner),
  the model built from a candidate's best position, each job's generator, and numpy's
  \<open>argsort\<close> on a list of scores.
\<close>

record ('pos, 'score, 'k, 'p, 'm) collaborators =
  set_start_pos :: "nat \<Rightarrow> 'k option \<Rightarrow> 'pos"
  eval_pos :: "nat \<Rightarrow> 'k option \<Rightarrow> 'pos \<Rightarrow> exn + 'score"
  initializer :: "(('pos, 'score, 'k) candidate \<Rightarrow> 'p) option"
  iterate :: "nat \<Rightarrow> ('pos, 'score, 'k) candidate \<times> 'p \<Rightarrow>
              exn + ('pos, 'score, 'k) candidate \<times> 'p"
  create_model :: "('pos, 'score, 'k) candidate \<Rightarrow> 'm"
  randbelow_of :: "nat \<Rightarrow> nat \<Rightarrow> nat"
  argsort :: "'score list \<Rightarrow> nat list"

definition show_progress_bar :: "'k optimizer \<Rightarrow> bool" where
  "show_progress_bar opt =
     (if model_type opt = ''keras'' \<or> model_type opt = ''torch'' then False
      else if 0 < verbosity opt then True
      else False)"

text \<open>
  A running job: the candidate and the positioner, and what the job has done to its
  process: the seeds set, the messages printed, and the number of \<open>update(1)\<close> calls on
  the progress bar (\<open>None\<close> when no bar was created).
\<close>

record ('pos, 'score, 'k, 'p) job =
  cand :: "('pos, 'score, 'k) candidate"
  positioner :: 'p
  seeds :: generators
  printed :: "message list"
  p_bar :: "nat option"

text \<open>
  A model type other than sklearn, xgboost and keras leaves \<open>_cand_\<close> unbound, and an
  \<open>initializer\<close> that is \<open>None\<close> leaves \<open>_p_\<close> unbound: \<open>UnboundLocalError\<close>.
\<close>

definition init_search ::
  "'k optimizer \<Rightarrow> ('pos, 'score, 'k, 'p, 'm) collaborators \<Rightarrow> nat \<Rightarrow>
   exn + ('pos, 'score, 'k, 'p) job" where
  "init_search opt ext job_id =
     (case set_random_seed opt (int job_id) unseeded of
        (g, Some e) \<Rightarrow> Inl e
      | (g, None) \<Rightarrow>
        case (if model_type opt = ''sklearn'' \<or> model_type opt = ''xgboost'' then
                 (case get_sklearn_model opt (randbelow_of ext job_id) job_id of
                    (out, Inl e) \<Rightarrow> Inl e
                  | (out, Inr search_config_key) \<Rightarrow> Inr (out, Some search_config_key))
               else if model_type opt = ''keras'' then Inr ([], None)
               else Inl UnboundLocalError) of
           Inl e \<Rightarrow> Inl e
         | Inr (out, key) \<Rightarrow>
             (let pos = set_start_pos ext job_id key
              in case eval_pos ext job_id key pos of
                   Inl e \<Rightarrow> Inl e
                 | Inr score \<Rightarrow>
                     (let c = \<lparr>nth_process = job_id, model_key = key,
                               pos_best = pos, score_best = score\<rparr>
                      in case initializer ext of
                           None \<Rightarrow> Inl UnboundLocalError
                         | Some ini \<Rightarrow>
                             Inr \<lparr>cand = c, positioner = ini c, seeds = g, printed = out,
                                  p_bar = (if show_progress_bar opt then Some 0 else None)\<rparr>)))"

text \<open>
  \<open>for i in range(n): s = body(i, s)\<close>, by the number of completed iterations; an
  exception in the body ends the loop.
\<close>

primrec for_range :: "nat \<Rightarrow> (nat \<Rightarrow> 's \<Rightarrow> 'e + 's) \<Rightarrow> 's \<Rightarrow> 'e + 's" where
  "for_range 0 body s = Inr s"
| "for_range (Suc n) body s =
     (case for_range n body s of Inl e \<Rightarrow> Inl e | Inr s' \<Rightarrow> body n s')"

text \<open>The body of the loop of \<open>search\<close>: one \<open>_iterate\<close> call, then the progress bar.\<close>

definition search_step ::
  "'k optimizer \<Rightarrow> ('pos, 'score, 'k, 'p, 'm) collaborators \<Rightarrow> nat \<Rightarrow>
   ('pos, 'score, 'k, 'p) job \<Rightarrow> exn + ('pos, 'score, 'k, 'p) job" where
  "search_step opt ext i j =
     (case iterate ext i (cand j, positioner j) of
        Inl e \<Rightarrow> Inl e
      | Inr (c, p) \<Rightarrow>
          Inr (j\<lparr>cand := c, positioner := p,
                 p_bar := (if show_progress_bar opt then map_option Suc (p_bar j)
                           else p_bar j)\<rparr>))"

text \<open>\<open>range(self.n_iter)\<close> is empty for a negative \<open>n_iter\<close>.\<close>

definition search ::
  "'k optimizer \<Rightarrow> ('pos, 'score, 'k, 'p, 'm) collaborators \<Rightarrow> nat \<Rightarrow>
   exn + ('pos, 'score, 'k, 'p) job" where
  "search opt ext job_id =
     (case init_search opt ext job_id of
        Inl e \<Rightarrow> Inl e
      | Inr j \<Rightarrow> for_range (nat (n_iter opt)) (search_step opt ext) j)"

text \<open>
  An \<open>_iterate\<close> that keeps a log: the positioner carries the list of the iteration
  numbers \<open>_iterate\<close> was called with, in the order of the calls.
\<close>

definition logged ::
  "(nat \<Rightarrow> 'c \<times> 'p \<Rightarrow> 'e + 'c \<times> 'p) \<Rightarrow> nat \<Rightarrow> 'c \<times> ('p \<times> nat list) \<Rightarrow>
   'e + 'c \<times> ('p \<times> nat list)" where
  "logged it i s =
     (case s of (c, p, calls) \<Rightarrow>
        (case it i (c, p) of
           Inl e \<Rightarrow> Inl e
         | Inr (c', p') \<Rightarrow> Inr (c', p', calls @ [i])))"

text \<open>
  \<open>_update_pos\<close> copies the positioner's new position and score into the candidate's
  best and the positioner's current ones. It compares nothing: the \<open>_iterate\<close> of a
  subclass decides when to call it. \<open>BasePositioner\<close> is not part of the sources; these
  are the attributes \<open>_update_pos\<close> and \<open>_initialize\<close> use.
\<close>

record ('pos, 'score) base_positioner =
  pos_new :: 'pos
  score_new :: 'score
  pos_current :: 'pos
  score_current :: 'score

definition update_pos ::
  "('pos, 'score, 'k) candidate \<Rightarrow> ('pos, 'score) base_positioner \<Rightarrow>
   ('pos, 'score, 'k) candidate \<times> ('pos, 'score) base_positioner" where
  "update_pos c p =
     (c\<lparr>pos_best := pos_new p, score_best := score_new p\<rparr>,
      p\<lparr>pos_current := pos_new p, score_current := score_new p\<rparr>)"

section \<open>Running the jobs and reducing their results\<close>

text \<open>Applying a function that may raise to each element in turn, up to the first exception.\<close>

fun map_raise :: "('a \<Rightarrow> exn + 'b) \<Rightarrow> 'a list \<Rightarrow> exn + 'b list" where
  "map_raise f [] = Inr []"
| "map_raise f (x # xs) =
     (case f x of
        Inl e \<Rightarrow> Inl e
      | Inr y \<Rightarrow> (case map_raise f xs of Inl e \<Rightarrow> Inl e | Inr ys \<Rightarrow> Inr (y # ys)))"

text \<open>
  \<open>multiprocessing.Pool(n)\<close> creates a pool of \<open>n\<close> worker processes and raises
  \<open>ValueError\<close> for \<open>n < 1\<close>.
\<close>

datatype pool = Pool int

definition new_pool :: "int \<Rightarrow> exn + pool" where
  "new_pool processes = (if processes < 1 then Inl ValueError else Inr (Pool processes))"

text \<open>
  \<open>pool.map(f, ids)\<close> returns the results in the order of \<open>ids\<close> when every call
  returns, and re-raises the exception of a call otherwise. With several failing calls
  the pool re-raises the exception that reaches it first; the model takes the one of
  the first failing id.
\<close>

definition pool_map :: "pool \<Rightarrow> ('a \<Rightarrow> exn + 'b) \<Rightarrow> 'a list \<Rightarrow> exn + 'b list" where
  "pool_map p f ids = map_raise f ids"

text \<open>
  \<open>_search_multiprocessing\<close>. The result is the list \<open>pool.map\<close> returns, together
  with the pool the method created for it.
\<close>

definition search_multiprocessing ::
  "'k optimizer \<Rightarrow> ('pos, 'score, 'k, 'p, 'm) collaborators \<Rightarrow>
   exn + pool \<times> ('pos, 'score, 'k, 'p) job list" where
  "search_multiprocessing opt ext =
     (case new_pool (n_jobs opt) of
        Inl e \<Rightarrow> Inl e
      | Inr p \<Rightarrow>
          (case pool_map p (search opt ext) (n_process_range opt) of
             Inl e \<Rightarrow> Inl e
           | Inr cand_list \<Rightarrow> Inr (p, cand_list)))"


text \<open>
  On an array of a few entries numpy's quicksort is an insertion sort, which keeps equal
  entries in their order. This is \<open>argsort\<close> in the concrete runs below, whose arrays
  have two or three entries.
\<close>

definition insertion_argsort :: "'a::linorder list \<Rightarrow> nat list" where
  "insertion_argsort xs = sort_key (\<lambda>i. xs ! i) [0..<length xs]"








section \<open>Random search: \<open>RandomSearchOptimizer.search\<close>\<close>

text \<open>The candidate of the random search also has a current position and score.\<close>

record ('pos, 'score, 'k) rs_candidate = "('pos, 'score, 'k) candidate" +
  pos :: 'pos
  score :: 'score

text \<open>
  The collaborators: \<open>get_random_position i\<close> is the position
  \<open>_space_.get_random_position()\<close> returns in iteration \<open>i\<close>, and \<open>cand_eval n p\<close> is
  the score the \<open>n\<close>-th call of \<open>_cand_.eval\<close> stores, made at position \<open>p\<close>, or the
  exception it raises. Nothing is assumed about either.
\<close>

definition move :: "(nat \<Rightarrow> 'pos) \<Rightarrow> nat \<Rightarrow> ('pos, 'score, 'k) rs_candidate \<Rightarrow>
    ('pos, 'score, 'k) rs_candidate" where
  "move get_random_position i c = c\<lparr>pos := get_random_position i\<rparr>"

definition eval_cand :: "(nat \<Rightarrow> 'pos \<Rightarrow> exn + 'score) \<Rightarrow> nat \<Rightarrow>
    ('pos, 'score, 'k) rs_candidate \<Rightarrow> exn + ('pos, 'score, 'k) rs_candidate" where
  "eval_cand cand_eval n c =
     (case cand_eval n (pos c) of Inl e \<Rightarrow> Inl e | Inr s \<Rightarrow> Inr (c\<lparr>score := s\<rparr>))"

text \<open>The body of the loop: move, evaluate, and take the new score if it is greater.\<close>

definition random_search_step ::
  "(nat \<Rightarrow> 'pos) \<Rightarrow> (nat \<Rightarrow> 'pos \<Rightarrow> exn + 'score::linorder) \<Rightarrow> nat \<Rightarrow>
   ('pos, 'score, 'k) rs_candidate \<Rightarrow> exn + ('pos, 'score, 'k) rs_candidate" where
  "random_search_step get_random_position cand_eval i c =
     (case eval_cand cand_eval (Suc i) (move get_random_position i c) of
        Inl e \<Rightarrow> Inl e
      | Inr c' \<Rightarrow>
          Inr (if score_best c' < score c'
               then c'\<lparr>score_best := score c', pos_best := pos c'\<rparr>
               else c'))"

text \<open>
  The search after \<open>budget\<close> iterations of its loop, from the candidate \<open>_init_search\<close>
  returned.
\<close>

definition random_search_upto ::
  "(nat \<Rightarrow> 'pos) \<Rightarrow> (nat \<Rightarrow> 'pos \<Rightarrow> exn + 'score::linorder) \<Rightarrow> nat \<Rightarrow>
   ('pos, 'score, 'k) rs_candidate \<Rightarrow> exn + ('pos, 'score, 'k) rs_candidate" where
  "random_search_upto get_random_position cand_eval budget c0 =
     (case eval_cand cand_eval 0 c0 of
        Inl e \<Rightarrow> Inl e
      | Inr c \<Rightarrow>
          for_range budget (random_search_step get_random_position cand_eval)
            (c\<lparr>score_best := score c, pos_best := pos c\<rparr>))"

text \<open>The loop runs over \<open>range(self.n_iter)\<close>.\<close>

definition random_search ::
  "'k optimizer \<Rightarrow> (nat \<Rightarrow> 'pos) \<Rightarrow> (nat \<Rightarrow> 'pos \<Rightarrow> exn + 'score::linorder) \<Rightarrow>
   ('pos, 'score, 'k) rs_candidate \<Rightarrow> exn + ('pos, 'score, 'k) rs_candidate" where
  "random_search opt get_random_position cand_eval c0 =
     random_search_upto get_random_position cand_eval (nat (n_iter opt)) c0"

text \<open>
  The score the \<open>n\<close>-th evaluation of a search observes and the position it is made at:
  the initial evaluation is at the candidate's own position, evaluation \<open>n + 1\<close> at the
  position drawn in iteration \<open>n\<close>.
\<close>

definition observed_pos :: "(nat \<Rightarrow> 'pos) \<Rightarrow> ('pos, 'score, 'k) rs_candidate \<Rightarrow> nat \<Rightarrow> 'pos" where
  "observed_pos get_random_position c0 n =
     (case n of 0 \<Rightarrow> pos c0 | Suc i \<Rightarrow> get_random_position i)"

definition observed ::
  "(nat \<Rightarrow> 'pos) \<Rightarrow> (nat \<Rightarrow> 'pos \<Rightarrow> exn + 'score) \<Rightarrow> ('pos, 'score, 'k) rs_candidate \<Rightarrow>
   nat \<Rightarrow> exn + 'score" where
  "observed get_random_position cand_eval c0 n =
     cand_eval n (observed_pos get_random_position c0 n)"

text \<open>
  The candidate \<open>c\<close> holds the running maximum of the evaluations \<open>0 .. n\<close>: all of
  them returned a score, \<open>score_best\<close> is the greatest of these scores, and
  \<open>pos_best\<close> is the position of the first evaluation that reached it.
\<close>

definition running_best ::
  "(nat \<Rightarrow> 'pos) \<Rightarrow> (nat \<Rightarrow> 'pos \<Rightarrow> exn + 'score::linorder) \<Rightarrow> ('pos, 'score, 'k) rs_candidate \<Rightarrow>
   nat \<Rightarrow> ('pos, 'score, 'k) rs_candidate \<Rightarrow> bool" where
  "running_best grp ev c0 n c \<longleftrightarrow>
     (\<forall>m \<le> n. \<exists>s. observed grp ev c0 m = Inr s) \<and>
     score_best c = Max ((\<lambda>m. projr (observed grp ev c0 m)) ` {..n}) \<and>
     (\<exists>m \<le> n. pos_best c = observed_pos grp c0 m \<and>
        projr (observed grp ev c0 m) = score_best c \<and>
        (\<forall>m' < m. projr (observed grp ev c0 m') < score_best c))"

section \<open>Example collaborators\<close>

text \<open>
  Collaborators for the concrete runs below: every position scores 0, \<open>_iterate\<close>
  changes nothing and keeps the log of its calls, the model built from a candidate is
  the candidate's job id, and \<open>argsort\<close> is numpy's on a short array.
\<close>

definition plain_collab ::
  "(int list, int, string, unit \<times> nat list, nat) collaborators" where
  "plain_collab =
     \<lparr>set_start_pos = (\<lambda>job_id key. [0]),
      eval_pos = (\<lambda>job_id key p. Inr 0),
      initializer = Some (\<lambda>c. ((), [])),
      iterate = logged (\<lambda>i s. Inr s),
      create_model = nth_process,
      randbelow_of = (\<lambda>job_id n. 0),
      argsort = insertion_argsort\<rparr>"

text \<open>The same, but the scoring function raises in iteration 1 of job 1.\<close>

definition failing_collab ::
  "(int list, int, string, unit \<times> nat list, nat) collaborators" where
  "failing_collab =
     plain_collab\<lparr>iterate :=
       logged (\<lambda>i s. if nth_process (fst s) = 1 \<and> i = 1 then Inl (Raised ''boom'') else Inr s)\<rparr>"


section \<open>Properties of the data conversion, the seeding and the model selection\<close>

text \<open>
  C8. For every pair \<open>(X, y)\<close> the conversion returns \<open>y\<close> itself: the second test looks
  at the already converted \<open>X\<close>, which is never a \<open>DataFrame\<close>, so \<open>y\<close> is not converted
  even when it is a \<open>DataFrame\<close>; a \<open>DataFrame\<close> \<open>X\<close> is replaced by its \<open>values\<close>.
\<close>

theorem check_data_keeps_y:
  "check_data X y = Inr (case X of DataFrame v \<Rightarrow> Array v | Array v \<Rightarrow> X, y)"
  by (cases X) (simp_all add: check_data_def)

text \<open>
  C2 (as amended). Let \<open>s\<close> be \<open>base + job_id\<close>, where \<open>base\<close> is \<open>random_state\<close> when
  one is supplied and \<open>0\<close> when none is. For every job id with \<open>0 \<le> s \<le> 2^32 - 1\<close> the
  three generators are seeded with \<open>s\<close>, so that without a base seed the job is seeded
  with the fixed value \<open>job_id\<close>. For every other \<open>s\<close> only \<open>random\<close> is seeded with
  \<open>s\<close>, and the seeding ends with the \<open>ValueError\<close> of \<open>np.random.seed\<close>.
\<close>

theorem set_random_seed_offset:
  "set_random_seed opt thread g =
     (if 0 \<le> (case random_state opt of None \<Rightarrow> 0 | Some b \<Rightarrow> b) + thread \<and>
         (case random_state opt of None \<Rightarrow> 0 | Some b \<Rightarrow> b) + thread \<le> 2 ^ 32 - 1
      then (g\<lparr>random_seed := Some ((case random_state opt of None \<Rightarrow> 0 | Some b \<Rightarrow> b) + thread),
              np_random_seed := Some ((case random_state opt of None \<Rightarrow> 0 | Some b \<Rightarrow> b) + thread),
              scipy_random_seed := Some ((case random_state opt of None \<Rightarrow> 0 | Some b \<Rightarrow> b) + thread)\<rparr>,
            None)
      else (g\<lparr>random_seed := Some ((case random_state opt of None \<Rightarrow> 0 | Some b \<Rightarrow> b) + thread)\<rparr>,
            Some ValueError))"
  by (cases "random_state opt")
     (simp_all add: set_random_seed_def seed_generators_def np_seed_in_range_def Let_def)

text \<open>
  C2 as stated fails twice. With no base seed, job 3 does not keep the process-default
  generators: each of them is seeded with 3. With the base seed \<open>-5\<close>, job 2 is not
  seeded with \<open>-3\<close>: \<open>random\<close> is, and \<open>np.random.seed\<close> raises.
\<close>

theorem set_random_seed_none_is_seeded:
  "fst (set_random_seed (BaseOptimizer_init [''m''] 10 1 None 4 ''sklearn'') 3 unseeded) \<noteq> unseeded \<and>
   set_random_seed (BaseOptimizer_init [''m''] 10 1 None 4 ''sklearn'') 3 unseeded =
     (\<lparr>random_seed = Some 3, np_random_seed = Some 3, scipy_random_seed = Some 3\<rparr>, None) \<and>
   set_random_seed (BaseOptimizer_init [''m''] 10 1 (Some (- 5)) 4 ''sklearn'') 2 unseeded =
     (\<lparr>random_seed = Some (- 3), np_random_seed = None, scipy_random_seed = None\<rparr>,
      Some ValueError)"
  by (simp add: set_random_seed_def seed_generators_def np_seed_in_range_def unseeded_def
        BaseOptimizer_init_def)

lemma get_sklearn_model_short:
  assumes "n_jobs opt < n_models opt"
  shows "get_sklearn_model opt randbelow k =
     ((if k = 0 then [NotEnoughJobs (n_models opt - n_jobs opt)] else []),
      getitem (model_list opt) k)"
  using assms by (simp add: get_sklearn_model_def Let_def)

lemma map_getitem_upt:
  "n \<le> length xs \<Longrightarrow> map (getitem xs) [0..<n] = map Inr (take n xs)"
  by (rule nth_equalityI) (simp_all add: getitem_def)

lemma concat_report_upt:
  "0 < n \<Longrightarrow> concat (map (\<lambda>k. if k = 0 then [m] else []) [0..<n]) = [m]"
proof -
  assume "0 < n"
  then have split: "[0..<n] = 0 # [Suc 0..<n]" by (simp add: upt_conv_Cons)
  have "concat (map (\<lambda>k. if k = 0 then [m] else []) [Suc 0..<n]) = []"
    by (induction n) auto
  then show ?thesis unfolding split by simp
qed

text \<open>
  C7. With more models than job slots, the jobs \<open>0 .. n_jobs - 1\<close> of a run are given
  the first \<open>n_jobs\<close> entries of \<open>model_list\<close>, by job id; the other
  \<open>n_models - n_jobs\<close> entries are given to no job; and all the jobs together print
  the report once (job 0 prints it), with the number of dropped models.
\<close>

theorem excess_models_dropped:
  assumes "n_jobs opt < n_models opt" and "1 \<le> n_jobs opt" and "distinct (model_list opt)"
  shows "map (\<lambda>k. snd (get_sklearn_model opt randbelow k)) [0..<nat (n_jobs opt)] =
           map Inr (take (nat (n_jobs opt)) (model_list opt)) \<and>
         concat (map (\<lambda>k. fst (get_sklearn_model opt randbelow k)) [0..<nat (n_jobs opt)]) =
           [NotEnoughJobs (n_models opt - n_jobs opt)] \<and>
         int (length (drop (nat (n_jobs opt)) (model_list opt))) = n_models opt - n_jobs opt \<and>
         set (drop (nat (n_jobs opt)) (model_list opt)) \<inter>
           set (take (nat (n_jobs opt)) (model_list opt)) = {}"
proof -
  have len: "nat (n_jobs opt) \<le> length (model_list opt)"
    using assms(1,2) by (simp add: n_models_def)
  have keys: "map (\<lambda>k. snd (get_sklearn_model opt randbelow k)) [0..<nat (n_jobs opt)] =
           map Inr (take (nat (n_jobs opt)) (model_list opt))"
    using map_getitem_upt [OF len] by (simp add: get_sklearn_model_short [OF assms(1)])
  have out: "concat (map (\<lambda>k. fst (get_sklearn_model opt randbelow k)) [0..<nat (n_jobs opt)]) =
           [NotEnoughJobs (n_models opt - n_jobs opt)]"
    using assms(2) by (simp add: get_sklearn_model_short [OF assms(1)] concat_report_upt)
  have cnt: "int (length (drop (nat (n_jobs opt)) (model_list opt))) = n_models opt - n_jobs opt"
    using assms(1,2) by (simp add: n_models_def)
  have "distinct (take (nat (n_jobs opt)) (model_list opt) @ drop (nat (n_jobs opt)) (model_list opt))"
    using assms(3) by simp
  then have disj: "set (drop (nat (n_jobs opt)) (model_list opt)) \<inter>
           set (take (nat (n_jobs opt)) (model_list opt)) = {}"
    unfolding distinct_append by blast
  from keys out cnt disj show ?thesis by blast
qed

text \<open>Three models on two job slots: jobs 0 and 1 search \<open>a\<close> and \<open>b\<close>, one report.\<close>

theorem excess_models_dropped_witness:
  "n_jobs (BaseOptimizer_init [''a'', ''b'', ''c''] 10 1 None 2 ''sklearn'') <
     n_models (BaseOptimizer_init [''a'', ''b'', ''c''] 10 1 None 2 ''sklearn'') \<and>
   map (\<lambda>k. snd (get_sklearn_model
          (BaseOptimizer_init [''a'', ''b'', ''c''] 10 1 None 2 ''sklearn'') (\<lambda>n. 0) k)) [0..<2] =
     [Inr ''a'', Inr ''b''] \<and>
   concat (map (\<lambda>k. fst (get_sklearn_model
          (BaseOptimizer_init [''a'', ''b'', ''c''] 10 1 None 2 ''sklearn'') (\<lambda>n. 0) k)) [0..<2]) =
     [NotEnoughJobs 1] \<and>
   drop 2 [''a'', ''b'', ''c''] = [''c'']"
proof -
  let ?opt = "BaseOptimizer_init [''a'', ''b'', ''c''] 10 1 None 2 ''sklearn'' :: string optimizer"
  have m: "n_models ?opt = 3" "n_jobs ?opt = 2" "model_list ?opt = [''a'', ''b'', ''c'']"
    by (simp_all add: BaseOptimizer_init_def n_models_def)
  have h1: "n_jobs ?opt < n_models ?opt" by (simp add: m)
  have h2: "1 \<le> n_jobs ?opt" by (simp add: m)
  have h3: "distinct (model_list ?opt)" by (simp add: m)
  show ?thesis
    using excess_models_dropped [OF h1 h2 h3, of "\<lambda>n. 0"] by (simp add: m)
qed

text \<open>
  C9. With at least as many job slots as models, a job whose id is not below
  \<open>n_models\<close> gets \<open>random.choice(model_list)\<close>: it prints nothing and, the list
  being non-empty, is given one of the listed models, so a model is searched twice.
\<close>

theorem surplus_jobs_random_model:
  assumes "n_models opt \<le> n_jobs opt" and "n_models opt \<le> int k"
  shows "get_sklearn_model opt randbelow k =
           ([], random_choice randbelow (model_list opt)) \<and>
         (model_list opt \<noteq> [] \<and> randbelow (length (model_list opt)) < length (model_list opt) \<longrightarrow>
            (\<exists>key \<in> set (model_list opt). random_choice randbelow (model_list opt) = Inr key))"
  using assms by (auto simp: get_sklearn_model_def random_choice_def getitem_def)

text \<open>Two models on four job slots: job 3 draws index 1 and searches \<open>b\<close> again.\<close>

theorem surplus_jobs_random_model_witness:
  "n_models (BaseOptimizer_init [''a'', ''b''] 10 1 None 4 ''sklearn'') \<le>
     n_jobs (BaseOptimizer_init [''a'', ''b''] 10 1 None 4 ''sklearn'') \<and>
   n_models (BaseOptimizer_init [''a'', ''b''] 10 1 None 4 ''sklearn'') \<le> int 3 \<and>
   get_sklearn_model (BaseOptimizer_init [''a'', ''b''] 10 1 None 4 ''sklearn'') (\<lambda>n. 1) 3 =
     ([], Inr ''b'')"
proof -
  let ?opt = "BaseOptimizer_init [''a'', ''b''] 10 1 None 4 ''sklearn'' :: string optimizer"
  have m: "n_models ?opt = 2" "n_jobs ?opt = 4" "model_list ?opt = [''a'', ''b'']"
    by (simp_all add: BaseOptimizer_init_def n_models_def)
  have h1: "n_models ?opt \<le> n_jobs ?opt" by (simp add: m)
  have h2: "n_models ?opt \<le> int 3" by (simp add: m)
  show ?thesis
    using surplus_jobs_random_model [OF h1 h2, of "\<lambda>n. 1"]
    by (simp add: m random_choice_def getitem_def)
qed

section \<open>Properties of the apportioning\<close>

text \<open>
  Below \<open>2^53\<close> the double nearest to a quotient has the quotient's integer part: for
  \<open>0 < b \<le> a < 2^53\<close>, \<open>int(a / b)\<close> is \<open>a div b\<close>.
\<close>

lemma round_half_even_cases:
  "round_half_even n d = n div d \<or> (round_half_even n d = n div d + 1 \<and> d \<le> 2 * (n mod d))"
  by (auto simp: round_half_even_def Let_def)

lemma div_eqI_int:
  fixes x P k :: int
  assumes "k * P \<le> x" "x < k * P + P" 
  shows "x div P = k"
  by (rule int_div_pos_eq [where r = "x - k * P"]) (use assms in \<open>simp_all add: mult.commute\<close>)

lemma scaled_round_div:
  fixes a b P :: int
  assumes b: "0 < b" and a: "0 \<le> a" and P: "0 < P" and small: "b < 2 * P"
  shows "round_half_even (a * P) b div P = a div b"
proof -
  define k where "k = a div b"
  define ra where "ra = a mod b"
  define t where "t = (ra * P) div b"
  have ra: "0 \<le> ra" "ra < b" using b by (simp_all add: ra_def)
  have q: "(a * P) div b = k * P + t"
    unfolding k_def ra_def t_def by (metis div_mult1_eq mult.commute)
  have r: "(a * P) mod b = (ra * P) mod b"
    unfolding ra_def by (simp add: mod_mult_left_eq)
  have t0: "0 \<le> t" unfolding t_def using ra P b by (simp add: pos_imp_zdiv_nonneg_iff)
  have "ra * P < b * P" using ra P by simp
  have "b * t \<le> ra * P" unfolding t_def using b
    by (metis mult.commute div_mult_mod_eq add.commute le_add_same_cancel2 pos_mod_sign)
  have t1: "t < P"
  proof (rule ccontr)
    assume "\<not> t < P"
    then have "b * P \<le> b * t" using b by (intro mult_left_mono) auto
    with \<open>b * t \<le> ra * P\<close> \<open>ra * P < b * P\<close> show False by simp
  qed
  from round_half_even_cases [of "a * P" b]
  have "k * P \<le> round_half_even (a * P) b \<and> round_half_even (a * P) b < k * P + P"
  proof
    assume "round_half_even (a * P) b = (a * P) div b"
    then show ?thesis using q t0 t1 by simp
  next
    assume up: "round_half_even (a * P) b = (a * P) div b + 1 \<and> b \<le> 2 * ((a * P) mod b)"
    have "t \<noteq> P - 1"
    proof
      assume tP: "t = P - 1"
      have "ra * P = b * t + (ra * P) mod b" unfolding t_def by simp
      then have "(ra * P) mod b = ra * P - b * (P - 1)" using tP by simp
      also have "\<dots> = b - (b - ra) * P" by (simp add: algebra_simps)
      finally have m: "(ra * P) mod b = b - (b - ra) * P" .
      have "1 * P \<le> (b - ra) * P" using ra P by (intro mult_right_mono) auto
      then have "2 * ((ra * P) mod b) \<le> 2 * b - 2 * P" using m by simp
      then have "2 * ((ra * P) mod b) < b" using small by simp
      then show False using up r by simp
    qed
    then have "t + 1 < P" using t1 by simp
    then show ?thesis using up q t0 by simp
  qed
  then show ?thesis unfolding k_def by (intro div_eqI_int) auto
qed

lemma quotient_exponent_lower:
  assumes b: "0 < b" and ab: "b \<le> a"
  shows "0 \<le> quotient_exponent a b \<and> b * 2 ^ nat (quotient_exponent a b) \<le> a"
proof -
  have a: "0 < a" using b ab by simp
  define d where "d = bitlen a - bitlen b"
  have "b < 2 ^ nat (bitlen a)" using bitlen_bounds [OF a] ab by simp
  then have "bitlen b \<le> bitlen a" by (simp add: bitlen_le_iff_power bitlen_nonneg)
  then have d0: "0 \<le> d" by (simp add: d_def)
  show ?thesis
  proof (cases "b * 2 ^ nat d \<le> a")
    case True
    then have "quotient_exponent a b = d"
      using d0 by (simp add: quotient_exponent_def d_def Let_def)
    then show ?thesis using True d0 by simp
  next
    case False
    then have e: "quotient_exponent a b = d - 1"
      using d0 by (simp add: quotient_exponent_def d_def Let_def)
    have "d \<noteq> 0" using False ab by auto
    then have d1: "1 \<le> d" using d0 by simp
    have lb: "1 \<le> bitlen b" using b bitlen_eq_zero_iff [of b] bitlen_nonneg [of b] by auto
    have "b * 2 ^ nat (d - 1) \<le> 2 ^ nat (bitlen b) * 2 ^ nat (d - 1)"
      using bitlen_bounds [OF b] by (intro mult_right_mono) auto
    also have "\<dots> = 2 ^ (nat (bitlen b) + nat (d - 1))" by (simp add: power_add)
    also have "nat (bitlen b) + nat (d - 1) = nat (bitlen a - 1)"
      using d1 lb by (simp add: d_def nat_add_distrib [symmetric])
    also have "2 ^ nat (bitlen a - 1) \<le> a" using bitlen_bounds [OF a] by simp
    finally show ?thesis using e d1 by simp
  qed
qed

lemma int_truediv_exact:
  assumes b: "0 < b" and ab: "b \<le> a" and small: "a < 2 ^ 53"
  shows "int_truediv a b = (Inr (a div b) :: exn + int)"
proof -
  define e where "e = quotient_exponent a b"
  define M :: int where "M = 2 ^ 53"
  have aM: "a < M" using small by (simp add: M_def)
  have e0: "0 \<le> e" and low: "b * 2 ^ nat e \<le> a"
    using quotient_exponent_lower [OF b ab] by (simp_all add: e_def)
  have "(1::int) * 2 ^ nat e \<le> b * 2 ^ nat e" using b by (intro mult_right_mono) auto
  with low aM have "(2::int) ^ nat e < M" by linarith
  then have "nat e < 53" unfolding M_def by (rule power_less_imp_less_exp [rotated]) simp
  then have e52: "e \<le> 52" by simp
  define sh where "sh = nat (52 - e)"
  have sh: "nat e + sh = 52" using e0 e52 by (simp add: sh_def)
  have "(2::int) * 2 ^ sh * 2 ^ nat e = 2 ^ Suc (nat e + sh)" by (simp add: power_add)
  also have "\<dots> = M" unfolding M_def using sh by simp
  finally have "b * 2 ^ nat e < (2 * 2 ^ sh) * 2 ^ nat e" using low aM by linarith
  then have b2: "b < 2 * 2 ^ sh" by (rule mult_right_less_imp_less) simp
  have a0: "0 \<le> a" using b ab by simp
  have core: "round_half_even (a * 2 ^ sh) b div 2 ^ sh = a div b"
    using scaled_round_div [OF b a0 _ b2] by simp
  have tr: "truediv_trunc a b = (Inr (a div b) :: exn + int)"
  proof (cases "e = 52")
    case True
    then have "sh = 0" by (simp add: sh_def)
    with core have r: "round_half_even a b = a div b" by simp
    have "a div b \<le> a" using b ab by (intro int_div_le_self) simp
    moreover have "M \<le> 2 ^ 1024" unfolding M_def by (rule power_increasing) simp_all
    ultimately have "\<not> (2 ^ 1024 \<le> a div b)" using aM by linarith
    then show ?thesis
      using True r unfolding truediv_trunc_def Let_def e_def [symmetric] by simp
  next
    case False
    then have "e - 52 < 0" using e52 by simp
    moreover have "max (e - 52) (- 1074) = e - 52" using e0 by simp
    moreover have "nat (- (e - 52)) = sh" by (simp add: sh_def)
    ultimately show ?thesis
      using core unfolding truediv_trunc_def Let_def e_def [symmetric] by simp
  qed
  show ?thesis
    using b ab tr by (simp add: int_truediv_def)
qed

lemma sum_extra_iterations:
  fixes r :: int
  assumes "0 \<le> r" and "r \<le> int n"
  shows "(\<Sum>k = 0..<n. (if int k < r then 1 else 0)) = r"
proof -
  have "(\<Sum>k = 0..<n. (if int k < r then 1 else 0 :: int)) =
        (\<Sum>k \<in> {0..<n} \<inter> {k. int k < r}. 1) + (\<Sum>k \<in> {0..<n} \<inter> - {k. int k < r}. 0)"
    by (rule sum.If_cases) simp
  also have "{0..<n} \<inter> {k. int k < r} = {0..<nat r}"
    using assms by auto
  finally show ?thesis using assms by simp
qed

text \<open>
  Where the double holds the quotient, the apportioning is exact: for a total budget
  \<open>n_iter\<close> with \<open>1 \<le> N \<le> n_iter < 2^53\<close>, job \<open>k\<close> is apportioned \<open>n_iter div N + 1\<close>
  iterations if \<open>k < n_iter mod N\<close> and \<open>n_iter div N\<close> otherwise, and the budgets of the
  jobs \<open>0 .. N - 1\<close> add up to \<open>n_iter\<close>.
\<close>

lemma set_n_steps_apportions:
  assumes "1 \<le> n_jobs opt" and "n_jobs opt \<le> n_iter opt" and "n_iter opt < 2 ^ 53"
  shows "(\<forall>k. set_n_steps opt k =
            Inr (n_iter opt div n_jobs opt + (if int k < n_iter opt mod n_jobs opt then 1 else 0))) \<and>
         (\<Sum>k = 0..<nat (n_jobs opt). projr (set_n_steps opt k)) = n_iter opt"
proof -
  let ?q = "n_iter opt div n_jobs opt" and ?r = "n_iter opt mod n_jobs opt"
  have b: "0 < n_jobs opt" using assms(1) by simp
  have share: "set_n_steps opt k = Inr (?q + (if int k < ?r then 1 else 0))" for k
    using int_truediv_exact [OF b assms(2,3)] by (simp add: set_n_steps_def Let_def)
  have "?r < n_jobs opt" using b by (rule pos_mod_bound)
  then have "?r \<le> int (nat (n_jobs opt))" using b by linarith
  moreover have "0 \<le> ?r" using b by simp
  ultimately have r: "0 \<le> ?r" "?r \<le> int (nat (n_jobs opt))" by blast+
  have "(\<Sum>k = 0..<nat (n_jobs opt). projr (set_n_steps opt k)) =
        (\<Sum>k = 0..<nat (n_jobs opt). ?q + (if int k < ?r then 1 else 0))"
    by (simp add: share)
  also have "\<dots> = int (nat (n_jobs opt)) * ?q + (\<Sum>k = 0..<nat (n_jobs opt). (if int k < ?r then 1 else 0))"
    by (simp add: sum.distrib)
  also have "\<dots> = n_jobs opt * ?q + ?r"
    using sum_extra_iterations [OF r] b by simp
  also have "\<dots> = n_iter opt" by simp
  finally show ?thesis using share by blast
qed

lemmas truediv_eval = int_truediv_def truediv_trunc_def quotient_exponent_def
  round_half_even_def Let_def compute_bitlen

text \<open>A budget of 10 on 3 jobs is apportioned as 4, 3, 3.\<close>

lemma set_n_steps_ten_on_three:
  "n_jobs (BaseOptimizer_init [''m''] 10 1 None 3 ''sklearn'') \<le>
     n_iter (BaseOptimizer_init [''m''] 10 1 None 3 ''sklearn'') \<and>
   map (set_n_steps (BaseOptimizer_init [''m''] 10 1 None 3 ''sklearn'')) [0, 1, 2] =
     [Inr 4, Inr 3, Inr 3] \<and>
   (\<Sum>k = 0..<3. projr (set_n_steps (BaseOptimizer_init [''m''] 10 1 None 3 ''sklearn'') k)) = 10"
proof -
  let ?opt = "BaseOptimizer_init [''m''] 10 1 None 3 ''sklearn'' :: string optimizer"
  have m: "n_iter ?opt = 10" "n_jobs ?opt = 3" by (simp_all add: BaseOptimizer_init_def)
  have h1: "1 \<le> n_jobs ?opt" by (simp add: m)
  have h2: "n_jobs ?opt \<le> n_iter ?opt" by (simp add: m)
  have h3: "n_iter ?opt < 2 ^ 53" by (simp add: m)
  from set_n_steps_apportions [OF h1 h2 h3]
  have each: "\<And>k. set_n_steps ?opt k =
                Inr (n_iter ?opt div n_jobs ?opt + (if int k < n_iter ?opt mod n_jobs ?opt then 1 else 0))"
    and total: "(\<Sum>k = 0..<nat (n_jobs ?opt). projr (set_n_steps ?opt k)) = n_iter ?opt"
    by blast+
  show ?thesis
    using each [of 0] each [of 1] each [of 2] total by (simp add: m)
qed

text \<open>A budget of 7 on 4 jobs is apportioned as 2, 2, 2, 1.\<close>

lemma set_n_steps_seven_on_four:
  "map (set_n_steps (BaseOptimizer_init [''m''] 7 1 None 4 ''sklearn'')) [0, 1, 2, 3] =
     [Inr 2, Inr 2, Inr 2, Inr 1]"
  by (simp add: BaseOptimizer_init_def set_n_steps_def truediv_eval)

text \<open>
  C5. The apportioning is meant to give job \<open>k\<close> the share \<open>n_iter div N\<close>, plus one for
  \<open>k < n_iter mod N\<close>, and the shares are meant to add up to \<open>n_iter\<close>; the remainder
  is computed on integers, but the quotient is computed as \<open>int(n_iter / n_jobs)\<close>,
  through a double. With \<open>n_iter = 2^53 + 1\<close> on one job, \<open>n_iter / 1\<close> is the double
  \<open>2^53\<close>, and the only job is apportioned one iteration less than the budget.
\<close>

theorem set_n_steps_rounds_large_budget:
  "1 \<le> n_jobs (BaseOptimizer_init [''m''] 9007199254740993 1 None 1 ''sklearn'') \<and>
   n_jobs (BaseOptimizer_init [''m''] 9007199254740993 1 None 1 ''sklearn'') \<le>
     n_iter (BaseOptimizer_init [''m''] 9007199254740993 1 None 1 ''sklearn'') \<and>
   set_n_steps (BaseOptimizer_init [''m''] 9007199254740993 1 None 1 ''sklearn'') 0 =
     Inr 9007199254740992 \<and>
   (\<Sum>k = 0..<1. projr (set_n_steps
        (BaseOptimizer_init [''m''] 9007199254740993 1 None 1 ''sklearn'') k)) \<noteq>
     n_iter (BaseOptimizer_init [''m''] 9007199254740993 1 None 1 ''sklearn'')"
  by (simp add: BaseOptimizer_init_def set_n_steps_def truediv_eval)


section \<open>Properties of the search loop and of the coordinator\<close>

lemma for_range_search_step_log:
  assumes "iterate ext = logged it"
    and "for_range n (search_step opt ext) j0 = Inr j"
  shows "snd (positioner j) = snd (positioner j0) @ [0..<n] \<and>
         p_bar j = (if show_progress_bar opt then map_option (\<lambda>c. c + n) (p_bar j0) else p_bar j0)"
  using assms(2)
proof (induction n arbitrary: j)
  case 0
  then show ?case by (simp add: option.map_ident)
next
  case (Suc n)
  from Suc.prems obtain j1 where j1: "for_range n (search_step opt ext) j0 = Inr j1"
    and step: "search_step opt ext n j1 = Inr j"
    by (auto split: sum.splits)
  from Suc.IH [OF j1] have ih: "snd (positioner j1) = snd (positioner j0) @ [0..<n]"
    "p_bar j1 = (if show_progress_bar opt then map_option (\<lambda>c. c + n) (p_bar j0) else p_bar j0)"
    by simp_all
  from step ih show ?case
    by (cases "positioner j1"; cases "p_bar j0")
       (auto simp: search_step_def assms(1) logged_def split: sum.splits prod.splits)
qed

lemma init_search_fields:
  assumes "init_search opt ext job_id = Inr j"
  shows "\<exists>ini. initializer ext = Some ini \<and> positioner j = ini (cand j) \<and>
         p_bar j = (if show_progress_bar opt then Some 0 else None) \<and>
         (seeds j, None) = set_random_seed opt (int job_id) unseeded"
  using assms
  by (auto simp: init_search_def Let_def split: sum.splits prod.splits option.splits if_splits)

text \<open>
  A job that returns has called \<open>_iterate\<close> with \<open>0, 1, .., n_iter - 1\<close>, once each and
  in this order, and has updated its progress bar \<open>n_iter\<close> times.
\<close>

lemma search_runs_n_iter:
  assumes "iterate ext = logged it"
    and "initializer ext = Some (\<lambda>c. (ini c, []))"
    and "search opt ext job_id = Inr j"
  shows "snd (positioner j) = [0..<nat (n_iter opt)] \<and>
         p_bar j = (if show_progress_bar opt then Some (nat (n_iter opt)) else None)"
proof -
  from assms(3) obtain j0 where j0: "init_search opt ext job_id = Inr j0"
    and loop: "for_range (nat (n_iter opt)) (search_step opt ext) j0 = Inr j"
    by (auto simp: search_def split: sum.splits)
  from init_search_fields [OF j0] assms(2)
  have "snd (positioner j0) = []" "p_bar j0 = (if show_progress_bar opt then Some 0 else None)"
    by auto
  with for_range_search_step_log [OF assms(1) loop] show ?thesis by simp
qed

lemma map_raise_Inr:
  "map_raise f xs = Inr ys \<Longrightarrow> length ys = length xs \<and> (\<forall>i < length xs. f (xs ! i) = Inr (ys ! i))"
proof (induction xs arbitrary: ys)
  case Nil
  then show ?case by simp
next
  case (Cons x xs)
  then show ?case
    by (auto split: sum.splits simp: nth_Cons split: nat.splits)
qed



text \<open>
  C1 (as amended). In a run on \<open>N\<close> job slots whose jobs all return, the loop of every
  job executes \<open>n_iter\<close> iterations, whatever its job id: the share \<open>_set_n_steps\<close>
  computes is not used by \<open>search\<close>. The \<open>N\<close> jobs together perform \<open>N * n_iter\<close>
  iterations.
\<close>

theorem every_job_runs_n_iter:
  assumes "iterate ext = logged it"
    and "initializer ext = Some (\<lambda>c. (ini c, []))"
    and "n_process_range opt = [0..<nat (n_jobs opt)]"
    and "search_multiprocessing opt ext = Inr (p, jobs)"
  shows "length jobs = nat (n_jobs opt) \<and>
         (\<forall>j \<in> set jobs. snd (positioner j) = [0..<nat (n_iter opt)]) \<and>
         (\<Sum>j\<leftarrow>jobs. length (snd (positioner j))) = nat (n_jobs opt) * nat (n_iter opt)"
proof -
  from assms(4) have mr: "map_raise (search opt ext) (n_process_range opt) = Inr jobs"
    by (simp add: search_multiprocessing_def pool_map_def split: sum.splits)
  from map_raise_Inr [OF mr]
  have len: "length jobs = nat (n_jobs opt)"
    and each: "\<And>i. i < length jobs \<Longrightarrow> search opt ext (n_process_range opt ! i) = Inr (jobs ! i)"
    by (simp_all add: assms(3))
  have logs: "snd (positioner j) = [0..<nat (n_iter opt)]" if "j \<in> set jobs" for j
  proof -
    from that obtain i where "i < length jobs" "jobs ! i = j" by (auto simp: in_set_conv_nth)
    with each [of i] search_runs_n_iter [OF assms(1,2)] show ?thesis by auto
  qed
  then have "map (\<lambda>j. length (snd (positioner j))) jobs = map (\<lambda>j. nat (n_iter opt)) jobs"
    by (intro map_cong) simp_all
  then have "(\<Sum>j\<leftarrow>jobs. length (snd (positioner j))) = (\<Sum>j\<leftarrow>jobs. nat (n_iter opt))"
    by (rule arg_cong)
  then have "(\<Sum>j\<leftarrow>jobs. length (snd (positioner j))) = length jobs * nat (n_iter opt)"
    by (simp add: sum_list_triv)
  with len logs show ?thesis by simp
qed

lemmas run_eval = search_multiprocessing_def new_pool_def pool_map_def search_def
  init_search_def search_step_def logged_def get_sklearn_model_def n_models_def getitem_def
  random_choice_def set_random_seed_def seed_generators_def np_seed_in_range_def unseeded_def
  show_progress_bar_def BaseOptimizer_init_def plain_collab_def failing_collab_def Let_def

text \<open>Two jobs with a budget of 3: each of them runs the iterations 0, 1, 2.\<close>

theorem every_job_runs_n_iter_witness:
  "map_sum id (\<lambda>(p, jobs). map (\<lambda>j. snd (positioner j)) jobs)
     (search_multiprocessing (BaseOptimizer_init [''a'', ''b''] 3 1 None 2 ''sklearn'') plain_collab) =
   Inr [[0, 1, 2], [0, 1, 2]]"
proof -
  let ?opt = "BaseOptimizer_init [''a'', ''b''] 3 1 None 2 ''sklearn'' :: string optimizer"
  have h1: "iterate plain_collab = logged (\<lambda>i s. Inr s)" by (simp add: plain_collab_def)
  have h2: "initializer plain_collab = Some (\<lambda>c. ((), []))" by (simp add: plain_collab_def)
  have h3: "n_process_range ?opt = [0..<nat (n_jobs ?opt)]" by (simp add: BaseOptimizer_init_def)
  obtain p jobs where h4: "search_multiprocessing ?opt plain_collab = Inr (p, jobs)"
    by (simp add: run_eval eval_nat_numeral)
  have m: "n_iter ?opt = 3" "n_jobs ?opt = 2" by (simp_all add: BaseOptimizer_init_def)
  from every_job_runs_n_iter [OF h1 h2 h3 h4]
  have "length jobs = 2" and "\<forall>j \<in> set jobs. snd (positioner j) = [0..<3]"
    by (simp_all add: m)
  then have "map (\<lambda>j. snd (positioner j)) jobs = [[0, 1, 2], [0, 1, 2]]"
    by (cases jobs rule: list.exhaust; simp add: eval_nat_numeral upt_rec; cases "tl jobs"; auto)
  then show ?thesis using h4 by simp
qed

text \<open>
  C1 as stated fails: with a budget of 3 on two jobs the shares are 2 and 1, but each
  job runs 3 iterations, 6 in all.
\<close>

theorem search_ignores_apportioning:
  "map_sum id (\<lambda>(p, jobs). map (\<lambda>j. snd (positioner j)) jobs)
     (search_multiprocessing (BaseOptimizer_init [''a'', ''b''] 3 1 None 2 ''sklearn'') plain_collab) =
   Inr [[0, 1, 2], [0, 1, 2]] \<and>
   map (set_n_steps (BaseOptimizer_init [''a'', ''b''] 3 1 None 2 ''sklearn'')) [0, 1] = [Inr 2, Inr 1]"
  by (simp add: run_eval eval_nat_numeral set_n_steps_def truediv_eval)



text \<open>
  An exception of the scoring function at the start position, once the seeding has
  passed, is one of these.
\<close>

lemma init_search_eval_raises:
  assumes "model_type opt = ''keras'' \<and> key = None \<or>
           (model_type opt = ''sklearn'' \<or> model_type opt = ''xgboost'') \<and>
             snd (get_sklearn_model opt (randbelow_of ext k) k) = Inr key' \<and> key = Some key'"
    and "snd (set_random_seed opt (int k) unseeded) = None"
    and "eval_pos ext k key (set_start_pos ext k key) = Inl e"
  shows "init_search opt ext k = Inl e"
  using assms
  by (auto simp: init_search_def Let_def split: prod.splits sum.splits option.splits)












section \<open>Properties of the reduction\<close>














section \<open>Properties of the random search\<close>

lemma for_range_prefix:
  "for_range n body s = Inr s' \<Longrightarrow> m \<le> n \<Longrightarrow> \<exists>s''. for_range m body s = Inr s''"
proof (induction n arbitrary: s')
  case 0
  then show ?case by simp
next
  case (Suc n)
  show ?case
  proof (cases "m = Suc n")
    case True
    with Suc.prems show ?thesis by blast
  next
    case False
    with Suc.prems have "m \<le> n" by simp
    moreover from Suc.prems obtain s1 where "for_range n body s = Inr s1"
      by (auto split: sum.splits)
    ultimately show ?thesis using Suc.IH by blast
  qed
qed

lemma random_search_upto_Suc:
  "random_search_upto grp ev (Suc n) c0 =
     (case random_search_upto grp ev n c0 of
        Inl e \<Rightarrow> Inl e
      | Inr c \<Rightarrow> random_search_step grp ev n c)"
  by (simp add: random_search_upto_def split: sum.splits)

lemma random_search_step_result:
  assumes "random_search_step grp ev n c = Inr c'"
  shows "\<exists>s. observed grp ev c0 (Suc n) = Inr s \<and> score c' = s \<and> pos c' = grp n \<and>
             (if score_best c < s
              then score_best c' = s \<and> pos_best c' = grp n
              else score_best c' = score_best c \<and> pos_best c' = pos_best c)"
  using assms
  by (auto simp: random_search_step_def eval_cand_def move_def observed_def observed_pos_def
           split: sum.splits if_splits)

lemma running_best_upto:
  "random_search_upto grp ev n c0 = Inr c \<Longrightarrow> running_best grp ev c0 n c"
proof (induction n arbitrary: c)
  case 0
  then show ?case
    by (auto simp: random_search_upto_def running_best_def eval_cand_def observed_def
          observed_pos_def split: sum.splits)
next
  case (Suc n)
  let ?o = "\<lambda>m. projr (observed grp ev c0 m)"
  from Suc.prems obtain c1 where c1: "random_search_upto grp ev n c0 = Inr c1"
    and step: "random_search_step grp ev n c1 = Inr c"
    by (auto simp: random_search_upto_Suc split: sum.splits)
  from Suc.IH [OF c1] have rb: "running_best grp ev c0 n c1" .
  from rb [unfolded running_best_def] have obs: "\<forall>m \<le> n. \<exists>s. observed grp ev c0 m = Inr s"
    and mx: "score_best c1 = Max (?o ` {..n})"
    and first: "\<exists>m \<le> n. pos_best c1 = observed_pos grp c0 m \<and> ?o m = score_best c1 \<and>
        (\<forall>m' < m. ?o m' < score_best c1)"
    by blast+
  from random_search_step_result [OF step, of c0] obtain s where
    s: "observed grp ev c0 (Suc n) = Inr s"
    and upd: "if score_best c1 < s then score_best c = s \<and> pos_best c = grp n
              else score_best c = score_best c1 \<and> pos_best c = pos_best c1"
    by blast
  have os: "?o (Suc n) = s" using s by simp
  have all: "\<forall>m \<le> Suc n. \<exists>s. observed grp ev c0 m = Inr s"
    using obs s by (auto simp: le_Suc_eq)
  have "Max (?o ` {..Suc n}) = max (?o (Suc n)) (Max (?o ` {..n}))"
    by (simp add: atMost_Suc)
  then have mx': "Max (?o ` {..Suc n}) = max s (score_best c1)" using os mx by simp
  have below: "?o m \<le> score_best c1" if "m \<le> n" for m
    unfolding mx using that by (intro Max_ge) auto
  show ?case
  proof (cases "score_best c1 < s")
    case True
    with upd have c: "score_best c = s" "pos_best c = grp n" by simp_all
    have "\<forall>m' < Suc n. ?o m' < s" using below True by (auto simp: less_Suc_eq_le intro: le_less_trans)
    then have "\<exists>m \<le> Suc n. pos_best c = observed_pos grp c0 m \<and> ?o m = score_best c \<and>
        (\<forall>m' < m. ?o m' < score_best c)"
      using c os by (intro exI [of _ "Suc n"]) (simp add: observed_pos_def)
    moreover have "score_best c = Max (?o ` {..Suc n})" using mx' c True by (simp add: max_absorb1 less_imp_le)
    ultimately show ?thesis using all by (simp add: running_best_def)
  next
    case False
    with upd have c: "score_best c = score_best c1" "pos_best c = pos_best c1" by simp_all
    from first c have "\<exists>m \<le> Suc n. pos_best c = observed_pos grp c0 m \<and> ?o m = score_best c \<and>
        (\<forall>m' < m. ?o m' < score_best c)"
      by (metis le_SucI)
    moreover have "score_best c = Max (?o ` {..Suc n})" using mx' c False by (simp add: max_absorb2 not_less)
    ultimately show ?thesis using all by (simp add: running_best_def)
  qed
qed

text \<open>
  C4. In a random search that returns, after each number \<open>n\<close> of iterations all the
  evaluations so far have returned a score, \<open>score_best\<close> is the greatest score
  observed so far, the initial evaluation included, and \<open>pos_best\<close> is the position
  that first reached it. The next iteration does not lower \<open>score_best\<close>, and when its
  score is not greater than \<open>score_best\<close> (a tie included) it leaves \<open>score_best\<close> and
  \<open>pos_best\<close> as they are.
\<close>

theorem random_search_keeps_running_maximum:
  assumes "random_search opt grp ev c0 = Inr c_end" and "n \<le> nat (n_iter opt)"
  shows "\<exists>c. random_search_upto grp ev n c0 = Inr c \<and>
           (\<forall>m \<le> n. \<exists>s. observed grp ev c0 m = Inr s) \<and>
           score_best c = Max ((\<lambda>m. projr (observed grp ev c0 m)) ` {..n}) \<and>
           (\<exists>m \<le> n. pos_best c = observed_pos grp c0 m \<and>
              projr (observed grp ev c0 m) = score_best c \<and>
              (\<forall>m' < m. projr (observed grp ev c0 m') < score_best c)) \<and>
           (n < nat (n_iter opt) \<longrightarrow>
              (\<exists>c'. random_search_step grp ev n c = Inr c' \<and>
                    random_search_upto grp ev (Suc n) c0 = Inr c' \<and>
                    score_best c \<le> score_best c' \<and>
                    (score c' \<le> score_best c \<longrightarrow>
                       score_best c' = score_best c \<and> pos_best c' = pos_best c)))"
proof -
  have upto: "\<exists>c. random_search_upto grp ev k c0 = Inr c" if "k \<le> nat (n_iter opt)" for k
  proof -
    from assms(1) obtain c1 where "eval_cand ev 0 c0 = Inr c1"
      and "for_range (nat (n_iter opt)) (random_search_step grp ev)
             (c1\<lparr>score_best := score c1, pos_best := pos c1\<rparr>) = Inr c_end"
      by (auto simp: random_search_def random_search_upto_def split: sum.splits)
    with for_range_prefix [OF _ that] show ?thesis
      by (simp add: random_search_upto_def)
  qed
  from upto [OF assms(2)] obtain c where c: "random_search_upto grp ev n c0 = Inr c" by blast
  from running_best_upto [OF c] have rb: "running_best grp ev c0 n c" .
  have next_step: "\<exists>c'. random_search_step grp ev n c = Inr c' \<and>
                    random_search_upto grp ev (Suc n) c0 = Inr c' \<and>
                    score_best c \<le> score_best c' \<and>
                    (score c' \<le> score_best c \<longrightarrow>
                       score_best c' = score_best c \<and> pos_best c' = pos_best c)"
    if "n < nat (n_iter opt)"
  proof -
    from that have "Suc n \<le> nat (n_iter opt)" by simp
    from upto [OF this] obtain c' where c': "random_search_upto grp ev (Suc n) c0 = Inr c'" by blast
    with c have step: "random_search_step grp ev n c = Inr c'"
      by (simp add: random_search_upto_Suc)
    from random_search_step_result [OF step, of c0] obtain s where
      "score c' = s"
      "if score_best c < s then score_best c' = s \<and> pos_best c' = grp n
       else score_best c' = score_best c \<and> pos_best c' = pos_best c"
      by blast
    then have "score_best c \<le> score_best c' \<and>
               (score c' \<le> score_best c \<longrightarrow> score_best c' = score_best c \<and> pos_best c' = pos_best c)"
      by (auto split: if_splits)
    with step c' show ?thesis by blast
  qed
  from c rb [unfolded running_best_def] next_step show ?thesis by blast
qed

lemmas random_search_eval = random_search_def random_search_upto_def random_search_step_def
  eval_cand_def move_def observed_def observed_pos_def BaseOptimizer_init_def

text \<open>
  Scores 3, 5, 5, 4: after two iterations the best score is 5, found at the position of
  the first iteration and kept at the tie of the second.
\<close>

theorem random_search_keeps_running_maximum_witness:
  "\<exists>c. random_search_upto (\<lambda>i. [int i]) (\<lambda>n p. Inr ([3, 5, 5, 4] ! n)) 2
         \<lparr>nth_process = 0, model_key = None :: string option, pos_best = [], score_best = 0,
          pos = [7], score = 0 :: int\<rparr> = Inr c \<and>
       score_best c = 5 \<and> pos_best c = [0] \<and>
       score_best c = Max ((\<lambda>m. projr (observed (\<lambda>i. [int i]) (\<lambda>n p. Inr ([3, 5, 5, 4] ! n))
          \<lparr>nth_process = 0, model_key = None :: string option, pos_best = [], score_best = 0,
           pos = [7], score = 0 :: int\<rparr> m)) ` {..2})"
proof -
  let ?opt = "BaseOptimizer_init [''m''] 3 1 None 1 ''sklearn'' :: string optimizer"
  let ?grp = "\<lambda>i::nat. [int i]"
  let ?ev = "\<lambda>(n::nat) (p::int list). Inr ([3, 5, 5, 4::int] ! n) :: exn + int"
  let ?c0 = "\<lparr>nth_process = 0, model_key = None :: string option, pos_best = [], score_best = 0,
          pos = [7], score = 0 :: int\<rparr>"
  obtain c_end where h1: "random_search ?opt ?grp ?ev ?c0 = Inr c_end"
    by (simp add: random_search_eval eval_nat_numeral)
  have h2: "2 \<le> nat (n_iter ?opt)" by (simp add: BaseOptimizer_init_def)
  from random_search_keeps_running_maximum [OF h1 h2]
  obtain c where c: "random_search_upto ?grp ?ev 2 ?c0 = Inr c"
    and mx: "score_best c = Max ((\<lambda>m. projr (observed ?grp ?ev ?c0 m)) ` {..2})"
    by blast
  from c have "score_best c = 5 \<and> pos_best c = [0]"
    by (auto simp: random_search_eval eval_nat_numeral)
  with c mx show ?thesis by blast
qed

text \<open>
  \<open>_update_pos\<close> itself takes over the new score whatever it is; the comparison is
  left to its caller.
\<close>

lemma update_pos_takes_new:
  "score_best (fst (update_pos c p)) = score_new p \<and> pos_best (fst (update_pos c p)) = pos_new p"
  by (simp add: update_pos_def)

end
